theory Spec2Isabelle
  imports Main "HOL-Library.Char_ord" "HOL-Library.List_Lexorder"
begin

section \<open>Calendar dates (the part of \<open>datetime.date\<close> the program uses)\<close>

text \<open>
  The program handles \<open>datetime.date\<close> values: it parses them from ISO strings,
  compares them, subtracts them (reading \<open>.days\<close> of the difference) and prints them.
  A date is its three fields; the ordinal arithmetic follows the standard library's
  \<open>_is_leap\<close>, \<open>_days_before_year\<close>, \<open>_days_in_month\<close>, \<open>_days_before_month\<close> and
  \<open>_ymd2ord\<close>.
\<close>

record date =
  year :: nat
  month :: nat
  day :: nat

definition is_leap :: "nat \<Rightarrow> bool" where
  "is_leap y = (y mod 4 = 0 \<and> (y mod 100 \<noteq> 0 \<or> y mod 400 = 0))"

definition DAYS_IN_MONTH :: "nat list" where
  "DAYS_IN_MONTH = [0, 31, 28, 31, 30, 31, 30, 31, 31, 30, 31, 30, 31]"

definition DAYS_BEFORE_MONTH :: "nat list" where
  "DAYS_BEFORE_MONTH = [0, 0, 31, 59, 90, 120, 151, 181, 212, 243, 273, 304, 334]"

definition days_in_month :: "nat \<Rightarrow> nat \<Rightarrow> nat" where
  "days_in_month y m = (if m = 2 \<and> is_leap y then 29 else DAYS_IN_MONTH ! m)"

definition days_before_month :: "nat \<Rightarrow> nat \<Rightarrow> nat" where
  "days_before_month y m = DAYS_BEFORE_MONTH ! m + (if m > 2 \<and> is_leap y then 1 else 0)"

definition days_before_year :: "nat \<Rightarrow> int" where
  "days_before_year y =
     (let y1 = int y - 1 in y1 * 365 + y1 div 4 - y1 div 100 + y1 div 400)"

text \<open>The constructor's check: year in 1..9999, month in 1..12, day within the month.\<close>

definition valid_date :: "date \<Rightarrow> bool" where
  "valid_date d =
     (1 \<le> year d \<and> year d \<le> 9999 \<and> 1 \<le> month d \<and> month d \<le> 12 \<and>
      1 \<le> day d \<and> day d \<le> days_in_month (year d) (month d))"

definition toordinal :: "date \<Rightarrow> int" where
  "toordinal d =
     days_before_year (year d) + int (days_before_month (year d) (month d)) + int (day d)"

text \<open>Comparison of dates compares the triples (year, month, day) lexicographically.\<close>

definition date_less :: "date \<Rightarrow> date \<Rightarrow> bool" where
  "date_less a b =
     (year a < year b \<or>
      (year a = year b \<and> (month a < month b \<or> (month a = month b \<and> day a < day b))))"

definition date_le :: "date \<Rightarrow> date \<Rightarrow> bool" where
  "date_le a b = (date_less a b \<or> a = b)"

text \<open>\<open>(a - b).days\<close>: the difference of two dates is a timedelta of whole days.\<close>

definition date_sub_days :: "date \<Rightarrow> date \<Rightarrow> int" where
  "date_sub_days a b = toordinal a - toordinal b"

subsection \<open>ISO strings\<close>

definition digit_char :: "nat \<Rightarrow> char" where
  "digit_char k = char_of (48 + k)"

definition digit_val :: "char \<Rightarrow> nat option" where
  "digit_val c =
     (let n = (of_char c :: nat) in if 48 \<le> n \<and> n \<le> 57 then Some (n - 48) else None)"

fun digits_val :: "nat \<Rightarrow> string \<Rightarrow> nat option" where
  "digits_val acc [] = Some acc"
| "digits_val acc (c # cs) =
     (case digit_val c of None \<Rightarrow> None | Some k \<Rightarrow> digits_val (10 * acc + k) cs)"

text \<open>\<open>"%04d"\<close> and \<open>"%02d"\<close> on the ranges a valid date has.\<close>

definition pad4 :: "nat \<Rightarrow> string" where
  "pad4 n = [digit_char (n div 1000 mod 10), digit_char (n div 100 mod 10),
             digit_char (n div 10 mod 10), digit_char (n mod 10)]"

definition pad2 :: "nat \<Rightarrow> string" where
  "pad2 n = [digit_char (n div 10 mod 10), digit_char (n mod 10)]"

text \<open>\<open>str(d)\<close> and \<open>d.isoformat()\<close>: \<open>YYYY-MM-DD\<close>.\<close>

definition isoformat :: "date \<Rightarrow> string" where
  "isoformat d = pad4 (year d) @ ''-'' @ pad2 (month d) @ ''-'' @ pad2 (day d)"

text \<open>
  \<open>date.fromisoformat\<close> on the format \<open>YYYY-MM-DD\<close>: ten characters, digits and two
  hyphens, then the constructor's range check. \<open>None\<close> stands for the \<open>ValueError\<close>.
\<close>

definition fromisoformat :: "string \<Rightarrow> date option" where
  "fromisoformat s =
     (if length s \<noteq> 10 \<or> s ! 4 \<noteq> CHR ''-'' \<or> s ! 7 \<noteq> CHR ''-'' then None
      else
        case (digits_val 0 (take 4 s), digits_val 0 (take 2 (drop 5 s)),
              digits_val 0 (take 2 (drop 8 s))) of
          (Some y, Some m, Some d) \<Rightarrow>
            (let r = \<lparr>year = y, month = m, day = d\<rparr>
             in if valid_date r then Some r else None)
        | _ \<Rightarrow> None)"

section \<open>Python values the program passes around\<close>

datatype error = ValueError

text \<open>
  A \<open>dict\<close> keeps its keys in insertion order: an association list whose keys are
  distinct. \<open>d[k] = v\<close> replaces the value in place when the key is present and appends
  the pair otherwise; \<open>d.get(k, default)\<close> reads with a default.
\<close>

type_synonym ('k, 'v) dict = "('k \<times> 'v) list"


fun dict_set :: "('k, 'v) dict \<Rightarrow> 'k \<Rightarrow> 'v \<Rightarrow> ('k, 'v) dict" where
  "dict_set [] k v = [(k, v)]"
| "dict_set ((k', v') # d) k v = (if k' = k then (k, v) # d else (k', v') # dict_set d k v)"

definition dict_get :: "('k, 'v) dict \<Rightarrow> 'k \<Rightarrow> 'v \<Rightarrow> 'v" where
  "dict_get d k dflt = (case map_of d k of None \<Rightarrow> dflt | Some v \<Rightarrow> v)"


text \<open>
  A \<open>DataFrame\<close> is its column labels and its rows, in order; \<open>len(df)\<close> is the number of
  rows. Each ledger has its own row type. The text layer of the CSV files (quoting, the
  reading of empty cells) belongs to the library and is not part of the model: a file
  holds the table that \<open>to_csv\<close> was given, and \<open>read_csv\<close> returns it.
\<close>

record 'r frame =
  columns :: "string list"
  rows :: "'r list"

definition len :: "'r frame \<Rightarrow> nat" where
  "len df = length (rows df)"

text \<open>\<open>pd.concat([a, b], ignore_index=True)\<close>: the rows of both, the union of the labels.\<close>

definition concat :: "'r frame \<Rightarrow> 'r frame \<Rightarrow> 'r frame" where
  "concat a b =
     \<lparr>columns = columns a @ filter (\<lambda>c. c \<notin> set (columns a)) (columns b),
      rows = rows a @ rows b\<rparr>"

text \<open>
  The progress table. During a session its date cell may hold a \<open>datetime.date\<close>, a
  timestamp (a date and the nanoseconds since midnight) or a string; in the file it is
  a string, and after loading a \<open>datetime.date\<close>. The row type takes the representation
  of the date as a parameter.
\<close>

record 'd progress_row =
  date :: 'd
  module :: string
  minutes :: int
  note_col :: string

datatype date_cell = DateObj date | Timestamp date nat | DateStr string

record milestone =
  week :: int
  done_date :: string
  ms_note :: string

record 't reflection =
  timestamp :: 't
  rf_date :: string
  topic :: string
  mood :: string
  rf_text :: string
  tags :: string

text \<open>The three ledger files beside the program; \<open>None\<close> is a file that does not exist.\<close>

record fs =
  PROGRESS_PATH :: "string progress_row frame option"
  MILESTONES_PATH :: "milestone frame option"
  REFLECTIONS_PATH :: "string reflection frame option"

section \<open>The plan\<close>

record module_cfg =
  cfg_planned_minutes_per_day :: int

record plan_meta =
  start_date :: string
  modules :: "(string, module_cfg) dict"

record plan =
  meta :: plan_meta

section \<open>Ledgers\<close>

text \<open>
  \<open>pd.to_datetime\<close> on one cell, on the representations above: a date becomes the
  timestamp of its midnight, a timestamp is kept, a string is parsed (the ISO form
  \<open>YYYY-MM-DD\<close> that the program itself writes; anything else is the \<open>ValueError\<close>).
  \<open>.dt.date\<close> then drops the time of day.
\<close>

fun to_datetime :: "date_cell \<Rightarrow> error + date \<times> nat" where
  "to_datetime (DateObj d) = Inr (d, 0)"
| "to_datetime (Timestamp d t) = Inr (d, t)"
| "to_datetime (DateStr s) =
     (case fromisoformat s of None \<Rightarrow> Inl ValueError | Some d \<Rightarrow> Inr (d, 0))"

definition dt_date :: "date \<times> nat \<Rightarrow> date" where
  "dt_date ts = fst ts"

text \<open>A column operation that may raise: the first failing cell raises for the column.\<close>

fun map_col :: "('a \<Rightarrow> error + 'b) \<Rightarrow> 'a list \<Rightarrow> error + 'b list" where
  "map_col f [] = Inr []"
| "map_col f (x # xs) =
     (case f x of
        Inl e \<Rightarrow> Inl e
      | Inr y \<Rightarrow> (case map_col f xs of Inl e \<Rightarrow> Inl e | Inr ys \<Rightarrow> Inr (y # ys)))"

definition set_date :: "'a progress_row \<Rightarrow> 'b \<Rightarrow> 'b progress_row" where
  "set_date r d = \<lparr>date = d, module = module r, minutes = minutes r, note_col = note_col r\<rparr>"

definition load_progress :: "fs \<Rightarrow> error + date progress_row frame" where
  "load_progress f =
     (case PROGRESS_PATH f of
        Some df \<Rightarrow>
          if len df = 0 then Inr \<lparr>columns = columns df, rows = []\<rparr>
          else
            (case map_col
                    (\<lambda>r. case to_datetime (DateStr (date r)) of
                            Inl e \<Rightarrow> Inl e
                          | Inr ts \<Rightarrow> Inr (set_date r (dt_date ts)))
                    (rows df) of
               Inl e \<Rightarrow> Inl e
             | Inr rs \<Rightarrow> Inr \<lparr>columns = columns df, rows = rs\<rparr>)
      | None \<Rightarrow> Inr \<lparr>columns = [''date'', ''module'', ''minutes'', ''note''], rows = []\<rparr>)"

definition save_progress :: "date_cell progress_row frame \<Rightarrow> fs \<Rightarrow> error + fs" where
  "save_progress df f =
     (case map_col
             (\<lambda>r. case to_datetime (date r) of
                     Inl e \<Rightarrow> Inl e
                   | Inr ts \<Rightarrow> Inr (set_date r (isoformat (dt_date ts))))
             (rows df) of
        Inl e \<Rightarrow> Inl e
      | Inr rs \<Rightarrow> Inr (f\<lparr>PROGRESS_PATH := Some \<lparr>columns = columns df, rows = rs\<rparr>\<rparr>))"

definition load_milestones :: "fs \<Rightarrow> milestone frame" where
  "load_milestones f =
     (case MILESTONES_PATH f of
        Some df \<Rightarrow> df
      | None \<Rightarrow> \<lparr>columns = [''week'', ''done_date'', ''note''], rows = []\<rparr>)"

definition save_milestones :: "milestone frame \<Rightarrow> fs \<Rightarrow> fs" where
  "save_milestones df f = f\<lparr>MILESTONES_PATH := Some df\<rparr>"

text \<open>
  \<open>load_reflections\<close> parses the timestamp column with \<open>errors="coerce"\<close>: a cell that
  does not parse becomes the missing value \<open>NaT\<close>, here \<open>None\<close>. The parser of timestamps
  is the library's and is a parameter.
\<close>

definition load_reflections ::
  "(string \<Rightarrow> 't option) \<Rightarrow> fs \<Rightarrow> 't option reflection frame" where
  "load_reflections parse_ts f =
     (case REFLECTIONS_PATH f of
        Some df \<Rightarrow>
          if len df = 0 then \<lparr>columns = columns df, rows = []\<rparr>
          else
            \<lparr>columns = columns df,
             rows = map (\<lambda>r. \<lparr>timestamp = parse_ts (timestamp r), rf_date = rf_date r,
                                topic = topic r, mood = mood r, rf_text = rf_text r,
                                tags = tags r\<rparr>) (rows df)\<rparr>
      | None \<Rightarrow>
          \<lparr>columns = [''timestamp'', ''date'', ''topic'', ''mood'', ''text'', ''tags''],
           rows = []\<rparr>)"

section \<open>Reconciliation engine\<close>



text \<open>
  \<open>groupby("module")["minutes"].sum().to_dict()\<close>: one accumulator per module, each row
  added to its module's accumulator, the groups listed in the order of their keys.
\<close>

definition group_add :: "(string, int) dict \<Rightarrow> string \<times> int \<Rightarrow> (string, int) dict" where
  "group_add acc kv = dict_set acc (fst kv) (dict_get acc (fst kv) 0 + snd kv)"

definition groupby_sum :: "(string \<times> int) list \<Rightarrow> (string, int) dict" where
  "groupby_sum kvs = sort_key fst (foldl group_add [] kvs)"

definition in_range :: "date \<Rightarrow> date \<Rightarrow> date progress_row \<Rightarrow> bool" where
  "in_range start_d end_d r = (date_le start_d (date r) \<and> date_le (date r) end_d)"

definition cumulative_actual ::
  "date progress_row frame \<Rightarrow> date \<Rightarrow> date \<Rightarrow> (string, int) dict" where
  "cumulative_actual df start_d end_d =
     (if len df = 0 then [(''total'', 0)]
      else
        let sub = filter (in_range start_d end_d) (rows df);
            totals = groupby_sum (map (\<lambda>r. (module r, minutes r)) sub)
        in dict_set totals ''total'' (if length sub \<noteq> 0 then sum_list (map minutes sub) else 0))"

definition week_index :: "plan \<Rightarrow> date \<Rightarrow> error + int" where
  "week_index pl today =
     (case fromisoformat (start_date (meta pl)) of
        None \<Rightarrow> Inl ValueError
      | Some start \<Rightarrow>
          (let delta_days = date_sub_days today start
           in if delta_days < 0 then Inr 0 else Inr (delta_days div 7 + 1)))"

section \<open>Milestones: the handler of "Save deliverable status"\<close>

text \<open>
  The handler reads the checkbox, the current week, the date of the log form and the
  note. \<open>ms\<close> is the table loaded when the script started; the handler works on a
  copy and returns \<open>ms\<close> as it was, with the files after the write. Only the checked
  branch writes: it drops the rows of the current week, appends one row and saves.
\<close>

definition save_deliv ::
  "bool \<Rightarrow> int \<Rightarrow> date \<Rightarrow> string \<Rightarrow> milestone frame \<Rightarrow> fs \<Rightarrow> milestone frame \<times> fs" where
  "save_deliv checked current_week log_date done_note ms f =
     (if checked then
        let ms2 = ms\<lparr>rows := filter (\<lambda>r. week r \<noteq> current_week) (rows ms)\<rparr>;
            ms3 = concat ms2
                    \<lparr>columns = [''week'', ''done_date'', ''note''],
                     rows = [\<lparr>week = current_week, done_date = isoformat log_date,
                              ms_note = done_note\<rparr>]\<rparr>
        in (ms, save_milestones ms3 f)
      else (ms, f))"

text \<open>
  One run of the script with the button pressed: load the table, then handle. The
  result is the table in memory and the files after the run.
\<close>

definition run_save_deliv ::
  "bool \<Rightarrow> int \<Rightarrow> date \<Rightarrow> string \<Rightarrow> fs \<Rightarrow> milestone frame \<times> fs" where
  "run_save_deliv checked current_week log_date done_note f =
     save_deliv checked current_week log_date done_note (load_milestones f) f"

section \<open>Feed reader\<close>

text \<open>
  What the network and the two libraries answer is not the program's: the outcome of
  \<open>requests.get\<close>, of \<open>raise_for_status\<close> and of \<open>feedparser.parse\<close> are parameters, each
  either a raised exception or a value. An exception is known by its class and by the
  text \<open>str(ex)\<close> gives. The cache in front of the function returns an earlier result of
  the same call and is left out.
\<close>

datatype py_exception = PyException (exc_class: string) (exc_str: string)

record response =
  status_code :: nat
  resp_text :: string

record feed_entry =
  e_title :: "string option"
  e_link :: "string option"
  e_published :: "string option"
  e_updated :: "string option"

record item =
  title :: string
  link :: string
  published :: string

record net =
  requests_get :: "string \<Rightarrow> (string \<times> string) list \<Rightarrow> int \<Rightarrow> py_exception + response"
  raise_for_status :: "response \<Rightarrow> py_exception option"
  feedparser_parse :: "string \<Rightarrow> py_exception + feed_entry list"

text \<open>\<open>str.strip()\<close> on the ASCII whitespace characters.\<close>

definition isspace :: "char \<Rightarrow> bool" where
  "isspace c = (let n = (of_char c :: nat) in (9 \<le> n \<and> n \<le> 13) \<or> (28 \<le> n \<and> n \<le> 32))"

definition strip :: "string \<Rightarrow> string" where
  "strip s = rev (dropWhile isspace (rev (dropWhile isspace s)))"

text \<open>\<open>xs[:n]\<close>: a negative \<open>n\<close> counts from the end.\<close>

definition slice_to :: "'a list \<Rightarrow> int \<Rightarrow> 'a list" where
  "slice_to xs n = (if 0 \<le> n then take (nat n) xs else take (length xs - nat (- n)) xs)"

definition getattr :: "'a option \<Rightarrow> 'a \<Rightarrow> 'a" where
  "getattr field dflt = (case field of None \<Rightarrow> dflt | Some v \<Rightarrow> v)"

definition item_of :: "feed_entry \<Rightarrow> item" where
  "item_of e =
     \<lparr>title = strip (getattr (e_title e) ''''),
      link = strip (getattr (e_link e) ''''),
      published = (let p = getattr (e_published e) ''''
                   in if p \<noteq> '''' then p else getattr (e_updated e) '''')\<rparr>"

definition fetch_rss :: "net \<Rightarrow> string \<Rightarrow> int \<Rightarrow> int \<Rightarrow> item list \<times> string option" where
  "fetch_rss nw url max_items timeout =
     (let headers = [(''User-Agent'', ''study-tracker/1.0 (+streamlit)'')]
      in case requests_get nw url headers timeout of
           Inl ex \<Rightarrow> ([], Some (exc_str ex))
         | Inr r \<Rightarrow>
             (case raise_for_status nw r of
                Some ex \<Rightarrow> ([], Some (exc_str ex))
              | None \<Rightarrow>
                  (case feedparser_parse nw (resp_text r) of
                     Inl ex \<Rightarrow> ([], Some (exc_str ex))
                   | Inr entries \<Rightarrow> (map item_of (slice_to entries max_items), None))))"

section \<open>Auxiliary notions for the statements\<close>

text \<open>
  The calendar date a date cell stands for, and the cells that stand for one: a
  \<open>datetime.date\<close> or a timestamp always holds a valid date, a string has to parse.
\<close>

fun cell_date :: "date_cell \<Rightarrow> date option" where
  "cell_date (DateObj d) = Some d"
| "cell_date (Timestamp d t) = Some d"
| "cell_date (DateStr s) = fromisoformat s"

fun cell_ok :: "date_cell \<Rightarrow> bool" where
  "cell_ok (DateObj d) = valid_date d"
| "cell_ok (Timestamp d t) = valid_date d"
| "cell_ok (DateStr s) = (fromisoformat s \<noteq> None)"

text \<open>
  The row that \<open>save_progress\<close> writes for a row whose cell stands for a date, and the
  row that \<open>load_progress\<close> reads back from it.
\<close>

definition saved_row :: "date_cell progress_row \<Rightarrow> string progress_row" where
  "saved_row r = set_date r (isoformat (the (cell_date (date r))))"

definition loaded_row :: "date_cell progress_row \<Rightarrow> date progress_row" where
  "loaded_row r = set_date r (the (cell_date (date r)))"

definition year_len :: "nat \<Rightarrow> nat" where
  "year_len y = (if is_leap y then 366 else 365)"

section \<open>Sample inputs\<close>

definition jan_01 :: date where
  "jan_01 = \<lparr>year = 2024, month = 1, day = 1\<rparr>"

definition jan_02 :: date where
  "jan_02 = \<lparr>year = 2024, month = 1, day = 2\<rparr>"

definition jan_10 :: date where
  "jan_10 = \<lparr>year = 2024, month = 1, day = 10\<rparr>"


definition empty_fs :: fs where
  "empty_fs = \<lparr>PROGRESS_PATH = None, MILESTONES_PATH = None, REFLECTIONS_PATH = None\<rparr>"

definition session_entries :: "date_cell progress_row frame" where
  "session_entries =
     \<lparr>columns = [''date'', ''module'', ''minutes'', ''note''],
      rows = [\<lparr>date = DateObj jan_01, module = ''stats'', minutes = 30, note_col = []\<rparr>,
              \<lparr>date = Timestamp jan_02 3600000000000, module = ''stats'', minutes = 20,
               note_col = []\<rparr>,
              \<lparr>date = DateStr ''2024-01-10'', module = ''algo'', minutes = 10,
               note_col = ''planned''\<rparr>]\<rparr>"





section \<open>Facts about dates\<close>

subsection \<open>The ordinal of a date grows with the date\<close>

lemma div_step:
  fixes k n :: int
  assumes "0 < n"
  shows "k div n = (k - 1) div n + (if k mod n = 0 then 1 else 0)"
proof (cases "k mod n = 0")
  case True
  have "k - 1 = n * (k div n - 1) + (n - 1)"
    using True by (simp add: algebra_simps) (metis True add.right_neutral mult_div_mod_eq)
  then have "(k - 1) div n = k div n - 1"
    using assms by (intro int_div_pos_eq[where r = "n - 1"]) auto
  with True show ?thesis by simp
next
  case False
  have m: "0 < k mod n" using False assms
    by (metis less_le pos_mod_sign)
  have b: "k mod n < n" using assms by (rule pos_mod_bound)
  have "k - 1 = n * (k div n) + (k mod n - 1)"
    by (simp add: algebra_simps)
  then have "(k - 1) div n = k div n"
    using assms m b by (intro int_div_pos_eq[where r = "k mod n - 1"]) auto
  with False show ?thesis by simp
qed

lemma is_leap_int:
  "is_leap y = (int y mod 4 = 0 \<and> (int y mod 100 \<noteq> 0 \<or> int y mod 400 = 0))"
proof -
  have "\<And>n. (int y mod int n = 0) = (y mod n = 0)"
    by (metis of_nat_mod of_nat_eq_0_iff)
  from this[of 4] this[of 100] this[of 400] show ?thesis
    unfolding is_leap_def by simp
qed

lemma mod_400_100: "(k::int) mod 400 = 0 \<Longrightarrow> k mod 100 = 0"
proof -
  assume "k mod 400 = 0"
  then have "400 dvd k" by (simp add: dvd_eq_mod_eq_0)
  moreover have "(100::int) dvd 400" by simp
  ultimately have "100 dvd k" by (rule dvd_trans[rotated])
  then show ?thesis by (simp add: dvd_eq_mod_eq_0)
qed

lemma mod_100_4: "(k::int) mod 100 = 0 \<Longrightarrow> k mod 4 = 0"
proof -
  assume "k mod 100 = 0"
  then have "100 dvd k" by (simp add: dvd_eq_mod_eq_0)
  moreover have "(4::int) dvd 100" by simp
  ultimately have "4 dvd k" by (rule dvd_trans[rotated])
  then show ?thesis by (simp add: dvd_eq_mod_eq_0)
qed

lemma dby_Suc: "days_before_year (Suc y) = days_before_year y + int (year_len y)"
proof -
  define k where "k = int y"
  define a where "a = (k - 1) div 4"
  define b where "b = (k - 1) div 100"
  define c where "c = (k - 1) div 400"
  have 4: "k div 4 = a + (if k mod 4 = 0 then 1 else 0)"
    unfolding a_def by (rule div_step) simp
  have 100: "k div 100 = b + (if k mod 100 = 0 then 1 else 0)"
    unfolding b_def by (rule div_step) simp
  have 400: "k div 400 = c + (if k mod 400 = 0 then 1 else 0)"
    unfolding c_def by (rule div_step) simp
  have L: "days_before_year (Suc y) = k * 365 + k div 4 - k div 100 + k div 400"
    unfolding days_before_year_def Let_def k_def by simp
  have R: "days_before_year y = (k - 1) * 365 + a - b + c"
    unfolding days_before_year_def Let_def k_def a_def b_def c_def by simp
  have Y: "int (year_len y) = (if k mod 4 = 0 \<and> (k mod 100 \<noteq> 0 \<or> k mod 400 = 0) then 366 else 365)"
    unfolding year_len_def is_leap_int k_def by simp
  consider (n4) "k mod 4 \<noteq> 0" | (y4) "k mod 4 = 0" "k mod 100 \<noteq> 0"
    | (y100) "k mod 100 = 0" "k mod 400 \<noteq> 0" | (y400) "k mod 400 = 0"
    by meson
  then show ?thesis
  proof cases
    case n4
    then have "k mod 100 \<noteq> 0" "k mod 400 \<noteq> 0"
      using mod_400_100[of k] mod_100_4[of k] by meson+
    with n4 show ?thesis unfolding L R Y 4 100 400 by simp
  next
    case y4
    then have "k mod 400 \<noteq> 0"
      using mod_400_100[of k] by meson
    with y4 show ?thesis unfolding L R Y 4 100 400 by simp
  next
    case y100
    then have "k mod 4 = 0"
      using mod_100_4[of k] by meson
    with y100 show ?thesis unfolding L R Y 4 100 400 by simp
  next
    case y400
    then have "k mod 100 = 0" "k mod 4 = 0"
      using mod_400_100[of k] mod_100_4[of k] by meson+
    with y400 show ?thesis unfolding L R Y 4 100 400 by simp
  qed
qed

lemma dby_mono: "y1 < y2 \<Longrightarrow> days_before_year y1 + int (year_len y1) \<le> days_before_year y2"
proof (induction y2)
  case 0
  then show ?case by simp
next
  case (Suc y2)
  show ?case
  proof (cases "y1 = y2")
    case True
    then show ?thesis by (simp add: dby_Suc)
  next
    case False
    with Suc have "days_before_year y1 + int (year_len y1) \<le> days_before_year y2" by simp
    then show ?thesis by (simp add: dby_Suc)
  qed
qed

lemma month_cases:
  assumes "1 \<le> m" "m \<le> (12::nat)"
  shows "m = 1 \<or> m = 2 \<or> m = 3 \<or> m = 4 \<or> m = 5 \<or> m = 6 \<or> m = 7 \<or> m = 8 \<or> m = 9 \<or>
         m = 10 \<or> m = 11 \<or> m = 12"
  using assms by arith

lemma dbm_Suc:
  assumes "1 \<le> m" "m < 12"
  shows "days_before_month y (Suc m) = days_before_month y m + days_in_month y m"
proof -
  from assms have "m = 1 \<or> m = 2 \<or> m = 3 \<or> m = 4 \<or> m = 5 \<or> m = 6 \<or> m = 7 \<or> m = 8 \<or>
      m = 9 \<or> m = 10 \<or> m = 11"
    by arith
  then show ?thesis
    by (elim disjE)
       (simp_all add: days_before_month_def days_in_month_def DAYS_BEFORE_MONTH_def
          DAYS_IN_MONTH_def)
qed

lemma dbm_last: "days_before_month y 12 + days_in_month y 12 = year_len y"
  by (simp add: days_before_month_def days_in_month_def DAYS_BEFORE_MONTH_def
      DAYS_IN_MONTH_def year_len_def)

lemma dbm_mono:
  "1 \<le> m1 \<Longrightarrow> m1 < m2 \<Longrightarrow> m2 \<le> 12 \<Longrightarrow>
   days_before_month y m1 + days_in_month y m1 \<le> days_before_month y m2"
proof (induction m2)
  case 0
  then show ?case by simp
next
  case (Suc m2)
  show ?case
  proof (cases "m1 = m2")
    case True
    with Suc.prems show ?thesis by (simp add: dbm_Suc)
  next
    case False
    with Suc have "days_before_month y m1 + days_in_month y m1 \<le> days_before_month y m2"
      by simp
    moreover have "days_before_month y (Suc m2) = days_before_month y m2 + days_in_month y m2"
      using Suc.prems False by (intro dbm_Suc) auto
    ultimately show ?thesis by simp
  qed
qed

lemma dbm_year:
  assumes "1 \<le> m" "m \<le> 12"
  shows "days_before_month y m + days_in_month y m \<le> year_len y"
proof (cases "m = 12")
  case True
  then show ?thesis by (simp add: dbm_last)
next
  case False
  with assms have "days_before_month y m + days_in_month y m \<le> days_before_month y 12"
    by (intro dbm_mono) auto
  then show ?thesis using dbm_last[of y] by simp
qed

lemma toordinal_mono:
  assumes a: "valid_date a" and b: "valid_date b" and l: "date_less a b"
  shows "toordinal a < toordinal b"
proof -
  from a have am: "1 \<le> month a" "month a \<le> 12" and ad: "1 \<le> day a"
    "day a \<le> days_in_month (year a) (month a)"
    by (simp_all add: valid_date_def)
  from b have bm: "1 \<le> month b" "month b \<le> 12" and bd: "1 \<le> day b"
    by (simp_all add: valid_date_def)
  consider (y) "year a < year b"
    | (m) "year a = year b" "month a < month b"
    | (d) "year a = year b" "month a = month b" "day a < day b"
    using l unfolding date_less_def by meson
  then show ?thesis
  proof cases
    case y
    have "toordinal a \<le> days_before_year (year a) + int (year_len (year a))"
      unfolding toordinal_def using dbm_year[OF am, of "year a"] ad by simp
    also have "\<dots> \<le> days_before_year (year b)"
      using y by (rule dby_mono)
    also have "\<dots> < toordinal b"
      unfolding toordinal_def using bd by simp
    finally show ?thesis .
  next
    case m
    have "days_before_month (year a) (month a) + day a
            \<le> days_before_month (year a) (month a) + days_in_month (year a) (month a)"
      using ad by simp
    also have "\<dots> \<le> days_before_month (year a) (month b)"
      using am m bm by (intro dbm_mono) auto
    finally show ?thesis
      unfolding toordinal_def using m bd by simp
  next
    case d
    then show ?thesis unfolding toordinal_def by simp
  qed
qed

lemma date_trichotomy: "date_less a b \<or> a = b \<or> date_less b a"
  unfolding date_less_def by (cases a; cases b) auto

lemma date_less_iff:
  assumes "valid_date a" "valid_date b"
  shows "date_less a b \<longleftrightarrow> toordinal a < toordinal b"
proof
  assume "date_less a b"
  with assms show "toordinal a < toordinal b" by (intro toordinal_mono)
next
  assume lt: "toordinal a < toordinal b"
  show "date_less a b"
  proof (rule ccontr)
    assume n: "\<not> date_less a b"
    with date_trichotomy[of a b] consider "a = b" | "date_less b a" by blast
    then show False
    proof cases
      case 1
      with lt show False by simp
    next
      case 2
      with assms have "toordinal b < toordinal a" by (intro toordinal_mono)
      with lt show False by simp
    qed
  qed
qed

subsection \<open>Printing a date and parsing it back\<close>

lemma digit_val_digit_char: "k < 10 \<Longrightarrow> digit_val (digit_char k) = Some k"
  by (simp add: digit_val_def digit_char_def Let_def)

lemma digits_val_pad2:
  assumes "n < 100"
  shows "digits_val 0 (pad2 n) = Some n"
proof -
  have a: "n div 10 < 10" using assms by simp
  have "digits_val 0 (pad2 n) = Some (10 * (n div 10) + n mod 10)"
    using a by (simp add: pad2_def digit_val_digit_char)
  then show ?thesis by simp
qed

lemma digits_val_pad4:
  assumes "n < 10000"
  shows "digits_val 0 (pad4 n) = Some n"
proof -
  define a where "a = n div 10"
  define b where "b = a div 10"
  define c where "c = b div 10"
  have b': "n div 100 = b" unfolding b_def a_def by (simp add: div_mult2_eq[symmetric])
  have c': "n div 1000 = c" unfolding c_def b_def a_def by (simp add: div_mult2_eq[symmetric])
  have "c < 10" using assms unfolding c'[symmetric] by simp
  then have cm: "c mod 10 = c" by simp
  have n: "n = 10 * a + n mod 10" unfolding a_def by simp
  have a: "a = 10 * b + a mod 10" unfolding b_def by simp
  have b: "b = 10 * c + b mod 10" unfolding c_def by simp
  have "digits_val 0 (pad4 n) = Some (10 * (10 * (10 * c + b mod 10) + a mod 10) + n mod 10)"
    unfolding pad4_def b' c' a_def[symmetric]
    using \<open>c < 10\<close> by (simp add: digit_val_digit_char cm)
  also have "\<dots> = Some n" using n a b by simp
  finally show ?thesis .
qed

lemma days_in_month_le: "1 \<le> m \<Longrightarrow> m \<le> 12 \<Longrightarrow> days_in_month y m \<le> 31"
  using month_cases[of m]
  by (auto simp: days_in_month_def DAYS_IN_MONTH_def)

lemma date_eta: "\<lparr>year = year d, month = month d, day = day d\<rparr> = (d::date)"
  by (cases d) simp

lemma fromisoformat_isoformat:
  assumes "valid_date d"
  shows "fromisoformat (isoformat d) = Some d"
proof -
  from assms have y: "year d < 10000" and m: "month d < 100" and dd: "day d < 100"
    using days_in_month_le[of "month d" "year d"] by (auto simp: valid_date_def)
  have len: "length (pad4 (year d)) = 4" "length (pad2 (month d)) = 2" "length (pad2 (day d)) = 2"
    by (simp_all add: pad4_def pad2_def)
  obtain y1 y2 y3 y4 where Y: "pad4 (year d) = [y1, y2, y3, y4]" by (simp add: pad4_def)
  obtain m1 m2 where M: "pad2 (month d) = [m1, m2]" by (simp add: pad2_def)
  obtain d1 d2 where D: "pad2 (day d) = [d1, d2]" by (simp add: pad2_def)
  have s: "isoformat d = [y1, y2, y3, y4, CHR ''-'', m1, m2, CHR ''-'', d1, d2]"
    by (simp add: isoformat_def Y M D)
  have "fromisoformat (isoformat d) =
        (case (digits_val 0 (pad4 (year d)), digits_val 0 (pad2 (month d)),
               digits_val 0 (pad2 (day d))) of
           (Some y, Some m, Some d) \<Rightarrow>
             (let r = \<lparr>year = y, month = m, day = d\<rparr> in if valid_date r then Some r else None)
         | _ \<Rightarrow> None)"
    unfolding fromisoformat_def s Y M D by simp
  also have "\<dots> = Some d"
    using assms
    by (simp add: digits_val_pad4[OF y] digits_val_pad2[OF m] digits_val_pad2[OF dd] date_eta)
  finally show ?thesis .
qed

lemma fromisoformat_valid: "fromisoformat s = Some d \<Longrightarrow> valid_date d"
  by (auto simp: fromisoformat_def Let_def split: if_splits option.splits)

section \<open>Facts about dicts and grouped sums\<close>















lemma map_of_keys: "(map_of d m = None) = (m \<notin> fst ` set d)"
  by (simp add: map_of_eq_None_iff)














subsection \<open>Facts about \<open>cumulative_actual\<close>\<close>

lemma group_rows_keys:
  "fst ` set (map (\<lambda>r. (module r, minutes r)) sub) = module ` set sub"
  by (simp add: image_image)


lemma group_rows_total:
  "sum_list (map snd (map (\<lambda>r. (module r, minutes r)) sub)) = sum_list (map minutes sub)"
  by (simp add: comp_def)


subsection \<open>Facts about \<open>cumulative_planned\<close>\<close>






subsection \<open>Facts about the milestone handler\<close>

lemma rows_run_checked:
  "rows (load_milestones (snd (run_save_deliv True w d n f))) =
     filter (\<lambda>r. week r \<noteq> w) (rows (load_milestones f)) @
       [\<lparr>week = w, done_date = isoformat d, ms_note = n\<rparr>]"
  by (simp add: run_save_deliv_def save_deliv_def Let_def save_milestones_def
      load_milestones_def concat_def)

subsection \<open>Facts about saving and loading the progress table\<close>

lemma map_col_all:
  "(\<And>x. x \<in> set xs \<Longrightarrow> f x = Inr (g x)) \<Longrightarrow> map_col f xs = Inr (map g xs)"
  by (induction xs) simp_all

lemma cell_ok_date:
  "cell_ok c \<Longrightarrow> \<exists>d. cell_date c = Some d \<and> valid_date d"
  by (cases c) (auto dest: fromisoformat_valid)

lemma to_datetime_cell_date:
  "cell_date c = Some d \<Longrightarrow> \<exists>t. to_datetime c = Inr (d, t)"
  by (cases c) auto

lemma save_step:
  assumes "cell_ok (date r)"
  shows "(case to_datetime (date r) of
            Inl e \<Rightarrow> Inl e
          | Inr ts \<Rightarrow> Inr (set_date r (isoformat (dt_date ts)))) = Inr (saved_row r)"
proof -
  from cell_ok_date[OF assms] obtain d where d: "cell_date (date r) = Some d" by blast
  from to_datetime_cell_date[OF d] obtain t where "to_datetime (date r) = Inr (d, t)" by blast
  then show ?thesis by (simp add: saved_row_def d dt_date_def)
qed

lemma load_step:
  assumes "cell_ok (date r)"
  shows "(case to_datetime (DateStr (date (saved_row r))) of
            Inl e \<Rightarrow> Inl e
          | Inr ts \<Rightarrow> Inr (set_date (saved_row r) (dt_date ts))) = Inr (loaded_row r)"
proof -
  from cell_ok_date[OF assms] obtain d where d: "cell_date (date r) = Some d"
    and v: "valid_date d" by blast
  have "date (saved_row r) = isoformat d" by (simp add: saved_row_def set_date_def d)
  then have "to_datetime (DateStr (date (saved_row r))) = Inr (d, 0)"
    by (simp add: fromisoformat_isoformat[OF v])
  then show ?thesis
    by (simp add: dt_date_def loaded_row_def saved_row_def set_date_def d)
qed

lemma save_progress_ok:
  assumes "\<forall>r \<in> set (rows df). cell_ok (date r)"
  shows "save_progress df f =
     Inr (f\<lparr>PROGRESS_PATH := Some \<lparr>columns = columns df, rows = map saved_row (rows df)\<rparr>\<rparr>)"
proof -
  have "map_col (\<lambda>r. case to_datetime (date r) of
                     Inl e \<Rightarrow> Inl e
                   | Inr ts \<Rightarrow> Inr (set_date r (isoformat (dt_date ts)))) (rows df)
        = Inr (map saved_row (rows df))"
    using assms by (intro map_col_all save_step) blast
  then show ?thesis by (simp add: save_progress_def)
qed

lemma load_progress_saved:
  assumes "\<forall>r \<in> set rs. cell_ok (date r)"
  shows "load_progress (f\<lparr>PROGRESS_PATH := Some \<lparr>columns = cols, rows = map saved_row rs\<rparr>\<rparr>) =
     Inr \<lparr>columns = cols, rows = map loaded_row rs\<rparr>"
proof (cases "rs = []")
  case True
  then show ?thesis by (simp add: load_progress_def len_def)
next
  case False
  have "map_col (\<lambda>r. case to_datetime (DateStr (date r)) of
                            Inl e \<Rightarrow> Inl e
                          | Inr ts \<Rightarrow> Inr (set_date r (dt_date ts))) (map saved_row rs)
        = Inr (map loaded_row rs)"
    using assms
  proof (induction rs)
    case Nil
    then show ?case by simp
  next
    case (Cons r rs)
    then have r: "cell_ok (date r)" and rs: "\<forall>r \<in> set rs. cell_ok (date r)" by simp_all
    show ?case
      using Cons.IH[OF rs] load_step[OF r] by (simp del: to_datetime.simps)
  qed
  with False show ?thesis by (simp add: load_progress_def len_def)
qed

section \<open>The claims\<close>

text \<open>
  C1. For a plan whose start date parses to \<open>s\<close> and any date \<open>today\<close>: \<open>week_index\<close>
  returns 0 when \<open>today\<close> is before \<open>s\<close>, and the floor of the days since \<open>s\<close> divided by
  7, plus 1, when \<open>today\<close> is \<open>s\<close> or later; so week \<open>k\<close> (from 1) is returned exactly on
  the days \<open>7 (k - 1)\<close> to \<open>7 (k - 1) + 6\<close> after the start: week 1 on days 0 to 6, week 2
  on days 7 to 13, and so on.
\<close>

theorem week_index_spec:
  assumes s: "fromisoformat (start_date (meta pl)) = Some s" and t: "valid_date today"
  shows "(date_less today s \<longrightarrow> week_index pl today = Inr 0) \<and>
         (date_le s today \<longrightarrow>
            week_index pl today = Inr (date_sub_days today s div 7 + 1)) \<and>
         (\<forall>k. 1 \<le> k \<and> 7 * (k - 1) \<le> date_sub_days today s \<and>
               date_sub_days today s \<le> 7 * (k - 1) + 6 \<longrightarrow>
               week_index pl today = Inr k)"
proof -
  have vs: "valid_date s" using s by (rule fromisoformat_valid)
  have w: "week_index pl today =
             (if date_sub_days today s < 0 then Inr 0 else Inr (date_sub_days today s div 7 + 1))"
    by (simp add: week_index_def s Let_def)
  have neg: "date_less today s \<longleftrightarrow> date_sub_days today s < 0"
    using date_less_iff[OF t vs] by (simp add: date_sub_days_def)
  have nonneg: "date_le s today \<Longrightarrow> \<not> date_sub_days today s < 0"
  proof -
    assume "date_le s today"
    then consider "date_less s today" | "s = today" unfolding date_le_def by blast
    then show ?thesis
    proof cases
      case 1
      then have "toordinal s < toordinal today" using vs t by (intro toordinal_mono)
      then show ?thesis by (simp add: date_sub_days_def)
    next
      case 2
      then show ?thesis by (simp add: date_sub_days_def)
    qed
  qed
  have a: "date_less today s \<longrightarrow> week_index pl today = Inr 0"
    using w neg by simp
  have b: "date_le s today \<longrightarrow> week_index pl today = Inr (date_sub_days today s div 7 + 1)"
    using w nonneg by simp
  have c: "week_index pl today = Inr k"
    if "1 \<le> k \<and> 7 * (k - 1) \<le> date_sub_days today s \<and> date_sub_days today s \<le> 7 * (k - 1) + 6"
    for k
  proof -
    define dd where "dd = date_sub_days today s"
    from that have k: "1 \<le> k" "7 * (k - 1) \<le> dd" "dd \<le> 7 * (k - 1) + 6"
      unfolding dd_def by simp_all
    then have "dd div 7 = k - 1" by (intro int_div_pos_eq[where r = "dd - 7 * (k - 1)"]) auto
    moreover have "\<not> dd < 0" using k by simp
    ultimately show ?thesis using w unfolding dd_def by simp
  qed
  from a b c show ?thesis by blast
qed

theorem week_index_spec_witness:
  "fromisoformat (start_date (meta \<lparr>meta = \<lparr>start_date = ''2024-01-01'', modules = []\<rparr>\<rparr>))
     = Some \<lparr>year = 2024, month = 1, day = 1\<rparr> \<and>
   valid_date \<lparr>year = 2024, month = 1, day = 10\<rparr> \<and>
   date_le \<lparr>year = 2024, month = 1, day = 1\<rparr> \<lparr>year = 2024, month = 1, day = 10\<rparr> \<and>
   week_index \<lparr>meta = \<lparr>start_date = ''2024-01-01'', modules = []\<rparr>\<rparr>
     \<lparr>year = 2024, month = 1, day = 10\<rparr> = Inr 2"
proof -
  have h1: "fromisoformat (start_date (meta \<lparr>meta = \<lparr>start_date = ''2024-01-01'', modules = []\<rparr>\<rparr>))
     = Some \<lparr>year = 2024, month = 1, day = 1\<rparr>"
    by code_simp
  have h2: "valid_date \<lparr>year = 2024, month = 1, day = 10\<rparr>"
    by code_simp
  have h3: "date_le \<lparr>year = 2024, month = 1, day = 1\<rparr> \<lparr>year = 2024, month = 1, day = 10\<rparr>"
    by code_simp
  have h4: "date_sub_days \<lparr>year = 2024, month = 1, day = 10\<rparr> \<lparr>year = 2024, month = 1, day = 1\<rparr> = 9"
    by code_simp
  from week_index_spec[OF h1 h2] h3 h4 h1 h2 show ?thesis by simp
qed

text \<open>
  C4. For every date range, \<open>cumulative_actual\<close> on a table with no rows returns exactly
  the mapping with the single key \<open>total\<close>, at 0.
\<close>

theorem cumulative_actual_empty:
  "cumulative_actual \<lparr>columns = cols, rows = []\<rparr> start_d end_d = [(''total'', 0)]"
  by (simp add: cumulative_actual_def len_def)







text \<open>
  C5. For every milestone table and every week \<open>w\<close>, saving the deliverable as done for
  \<open>w\<close> removes all rows of week \<open>w\<close>, appends exactly one new row (\<open>w\<close>, the date, the
  note) and writes the table to the file; so after doing it twice for the same week, with
  any two notes, the table has exactly one row for that week, the one with the later
  note.
\<close>

theorem upsert_spec:
  "rows (load_milestones (snd (run_save_deliv True w d n f))) =
     filter (\<lambda>r. week r \<noteq> w) (rows (load_milestones f)) @
       [\<lparr>week = w, done_date = isoformat d, ms_note = n\<rparr>] \<and>
   MILESTONES_PATH (snd (run_save_deliv True w d n f)) =
     Some (load_milestones (snd (run_save_deliv True w d n f))) \<and>
   filter (\<lambda>r. week r = w)
     (rows (load_milestones
        (snd (run_save_deliv True w d2 n2 (snd (run_save_deliv True w d1 n1 f)))))) =
     [\<lparr>week = w, done_date = isoformat d2, ms_note = n2\<rparr>]"
proof (intro conjI)
  show "rows (load_milestones (snd (run_save_deliv True w d n f))) =
     filter (\<lambda>r. week r \<noteq> w) (rows (load_milestones f)) @
       [\<lparr>week = w, done_date = isoformat d, ms_note = n\<rparr>]"
    by (rule rows_run_checked)
next
  show "MILESTONES_PATH (snd (run_save_deliv True w d n f)) =
     Some (load_milestones (snd (run_save_deliv True w d n f)))"
    by (simp add: run_save_deliv_def save_deliv_def Let_def save_milestones_def
        load_milestones_def)
next
  have "filter (\<lambda>r. week r = w) (filter (\<lambda>r. week r \<noteq> w) xs) = []" for xs :: "milestone list"
    by (induction xs) auto
  then show "filter (\<lambda>r. week r = w)
     (rows (load_milestones
        (snd (run_save_deliv True w d2 n2 (snd (run_save_deliv True w d1 n1 f)))))) =
     [\<lparr>week = w, done_date = isoformat d2, ms_note = n2\<rparr>]"
    by (simp add: rows_run_checked)
qed


text \<open>
  C8. For each of the three ledgers, when its file is absent, loading returns without
  error the empty table with the fixed columns of that ledger: date, module, minutes,
  note for progress; week, done_date, note for milestones; timestamp, date, topic, mood,
  text, tags for reflections.
\<close>

theorem load_missing_file:
  "(PROGRESS_PATH f = None \<longrightarrow>
      load_progress f = Inr \<lparr>columns = [''date'', ''module'', ''minutes'', ''note''], rows = []\<rparr>) \<and>
   (MILESTONES_PATH f = None \<longrightarrow>
      load_milestones f = \<lparr>columns = [''week'', ''done_date'', ''note''], rows = []\<rparr>) \<and>
   (REFLECTIONS_PATH f = None \<longrightarrow>
      load_reflections parse_ts f =
        \<lparr>columns = [''timestamp'', ''date'', ''topic'', ''mood'', ''text'', ''tags''],
         rows = []\<rparr>)"
  by (simp add: load_progress_def load_milestones_def load_reflections_def)

theorem load_missing_file_witness:
  "load_progress empty_fs =
     Inr \<lparr>columns = [''date'', ''module'', ''minutes'', ''note''], rows = []\<rparr> \<and>
   load_milestones empty_fs = \<lparr>columns = [''week'', ''done_date'', ''note''], rows = []\<rparr> \<and>
   load_reflections (\<lambda>s. Some s) empty_fs =
     \<lparr>columns = [''timestamp'', ''date'', ''topic'', ''mood'', ''text'', ''tags''], rows = []\<rparr>"
proof -
  have n: "PROGRESS_PATH empty_fs = None" "MILESTONES_PATH empty_fs = None"
    "REFLECTIONS_PATH empty_fs = None"
    by (simp_all add: empty_fs_def)
  note t = load_missing_file[of empty_fs "\<lambda>s. Some s"]
  from t[THEN conjunct1, THEN mp, OF n(1)]
    t[THEN conjunct2, THEN conjunct1, THEN mp, OF n(2)]
    t[THEN conjunct2, THEN conjunct2, THEN mp, OF n(3)]
  show ?thesis by (intro conjI)
qed

text \<open>
  C7. For every progress table whose date cells stand for calendar dates, whatever the
  representation in memory (a \<open>datetime.date\<close>, a timestamp, an ISO date string): saving
  succeeds and rewrites the whole file with the dates as ISO strings, and loading the file
  then succeeds and yields, row by row, the calendar dates that were saved, with the other
  columns and the column labels unchanged.
\<close>

theorem progress_roundtrip:
  assumes "\<forall>r \<in> set (rows df). cell_ok (date r)"
  shows "\<exists>f' df'. save_progress df f = Inr f' \<and> load_progress f' = Inr df' \<and>
           map (\<lambda>r. Some (date r)) (rows df') = map (\<lambda>r. cell_date (date r)) (rows df) \<and>
           map module (rows df') = map module (rows df) \<and>
           map minutes (rows df') = map minutes (rows df) \<and>
           map note_col (rows df') = map note_col (rows df) \<and>
           columns df' = columns df"
proof -
  let ?f' = "f\<lparr>PROGRESS_PATH := Some \<lparr>columns = columns df, rows = map saved_row (rows df)\<rparr>\<rparr>"
  let ?df' = "\<lparr>columns = columns df, rows = map loaded_row (rows df)\<rparr>"
  have s: "save_progress df f = Inr ?f'" using assms by (rule save_progress_ok)
  have l: "load_progress ?f' = Inr ?df'" using assms by (rule load_progress_saved)
  have d: "map (\<lambda>r. Some (date r)) (rows ?df') = map (\<lambda>r. cell_date (date r)) (rows df)"
  proof -
    have "Some (date (loaded_row r)) = cell_date (date r)" if "r \<in> set (rows df)" for r
    proof -
      from that assms have "cell_ok (date r)" by blast
      from cell_ok_date[OF this] obtain d where "cell_date (date r) = Some d" by blast
      then show ?thesis by (simp add: loaded_row_def set_date_def)
    qed
    then show ?thesis by simp
  qed
  have o: "map module (rows ?df') = map module (rows df)"
    "map minutes (rows ?df') = map minutes (rows df)"
    "map note_col (rows ?df') = map note_col (rows df)"
    "columns ?df' = columns df"
    by (simp_all add: loaded_row_def set_date_def comp_def)
  from s l d o show ?thesis by blast
qed

theorem progress_roundtrip_witness:
  "\<exists>f' df'. save_progress session_entries empty_fs = Inr f' \<and> load_progress f' = Inr df' \<and>
     map date (rows df') = [jan_01, jan_02, jan_10] \<and>
     map minutes (rows df') = [30, 20, 10]"
proof -
  have v1: "valid_date jan_01" by code_simp
  have v2: "valid_date jan_02" by code_simp
  have p10: "fromisoformat ''2024-01-10'' = Some jan_10" by code_simp
  have h: "\<forall>r \<in> set (rows session_entries). cell_ok (date r)"
    by (simp add: session_entries_def v1 v2 p10)
  have c: "map (\<lambda>r. cell_date (date r)) (rows session_entries) =
      [Some jan_01, Some jan_02, Some jan_10]"
    by (simp add: session_entries_def p10)
  have m: "map minutes (rows session_entries) = [30, 20, 10]"
    by (simp add: session_entries_def)
  from progress_roundtrip[OF h, of empty_fs] obtain f' df' where
    s: "save_progress session_entries empty_fs = Inr f'" and l: "load_progress f' = Inr df'"
    and d: "map (\<lambda>r. Some (date r)) (rows df') = map (\<lambda>r. cell_date (date r)) (rows session_entries)"
    and n: "map minutes (rows df') = map minutes (rows session_entries)"
    by blast
  from d c have "map Some (map date (rows df')) = map Some [jan_01, jan_02, jan_10]"
    by (simp add: comp_def)
  then have dd: "map date (rows df') = [jan_01, jan_02, jan_10]"
    by (simp only: inj_map_eq_map[OF inj_Some])
  from n m have mm: "map minutes (rows df') = [30, 20, 10]" by (rule trans)
  from s l dd mm show ?thesis by (intro exI conjI)
qed

end
